theory Spec2Isabelle
  imports Complex_Main "HOL-Library.Sublist"
begin

section \<open>Python values used by the question generator\<close>

text \<open>
  The exceptions the modelled code can raise. A function of the source that can raise
  returns \<open>py_error + 'a\<close>, with \<open>Inl\<close> for the raised exception.
\<close>

datatype py_error = ValueError | IndexError | ZeroDivisionError | TypeError
  | Reraised string | JobError string string

text \<open>
  Proportions are Python floats in the source. The model computes with exact rationals,
  so a product such as \<open>total_questions * q_ratio\<close> carries no binary rounding error;
  the concrete inputs evaluated below are ones on which float arithmetic gives the same
  counts. Python's \<open>round(x)\<close> with one argument rounds to the nearest integer and
  resolves a tie to the even neighbour; \<open>int(round(x))\<close> is that integer.
\<close>

definition py_round :: "rat \<Rightarrow> int" where
  "py_round x =
     (let f = \<lfloor>x\<rfloor>; r = x - of_int f
      in if r < 1 / 2 then f
         else if 1 / 2 < r then f + 1
         else if even f then f else f + 1)"

text \<open>
  A Python \<open>dict\<close> keeps insertion order; \<open>d[k] = v\<close> replaces the value of a key
  that is present (its position stays) and appends a new key otherwise.
\<close>

fun dict_set :: "('k \<times> 'v) list \<Rightarrow> 'k \<Rightarrow> 'v \<Rightarrow> ('k \<times> 'v) list" where
  "dict_set [] k v = [(k, v)]"
| "dict_set ((k', v') # d) k v = (if k' = k then (k, v) # d else (k', v') # dict_set d k v)"

fun dict_get :: "('k \<times> 'v) list \<Rightarrow> 'k \<Rightarrow> 'v option" where
  "dict_get [] k = None"
| "dict_get ((k', v') # d) k = (if k' = k then Some v' else dict_get d k)"

text \<open>
  \<open>max(xs, key=f)\<close>: the first element whose key is largest; \<open>ValueError\<close> on an
  empty sequence.
\<close>

fun py_max :: "('a \<Rightarrow> int) \<Rightarrow> 'a list \<Rightarrow> py_error + 'a" where
  "py_max f [] = Inl ValueError"
| "py_max f (x # xs) = Inr (foldl (\<lambda>best y. if f best < f y then y else best) x xs)"

section \<open>The allocation\<close>

text \<open>
  One entry of \<open>question_breakdown\<close> (utils) has the keys \<open>difficulty\<close>,
  \<open>blooms_level\<close> and \<open>count\<close>; an entry of \<open>distribution\<close> (app.py) has
  \<open>question_type\<close> as well.
\<close>

record specs =
  difficulty :: string
  blooms_level :: string
  count :: int

record config = specs +
  question_type :: string

type_synonym dist = "(string \<times> rat) list"

text \<open>\<open>sum([item['count'] for item in d.values()])\<close>\<close>

definition total_count :: "('k \<times> ('a specs_scheme)) list \<Rightarrow> int" where
  "total_count d = sum_list (map (\<lambda>kv. count (snd kv)) d)"

text \<open>\<open>d[k]['count'] += n\<close> for a key \<open>k\<close> of \<open>d\<close>.\<close>

fun add_count :: "('k \<times> ('a specs_scheme)) list \<Rightarrow> 'k \<Rightarrow> int \<Rightarrow> ('k \<times> ('a specs_scheme)) list" where
  "add_count [] k n = []"
| "add_count ((k', c) # d) k n =
     (if k' = k then (k', c\<lparr>count := count c + n\<rparr>) # d else (k', c) # add_count d k n)"

text \<open>
  The adjustment both allocators end with:
  \<^verbatim>\<open>
    total_calculated = sum([item['count'] for item in d.values()])
    if total_calculated != total:
        largest_key = max(d.keys(), key=lambda k: d[k]['count'])
        d[largest_key]['count'] += (total - total_calculated)
  \<close>
  The key function looks \<open>k\<close> up in \<open>d\<close>; \<open>k\<close> is drawn from the keys of \<open>d\<close>, so the
  lookup cannot miss.
\<close>

definition adjust :: "int \<Rightarrow> (string \<times> ('a specs_scheme)) list
    \<Rightarrow> py_error + (string \<times> ('a specs_scheme)) list" where
  "adjust n d =
     (let total_calculated = total_count d
      in if total_calculated \<noteq> n then
           (case py_max (\<lambda>k. case dict_get d k of Some c \<Rightarrow> count c | None \<Rightarrow> 0) (map fst d) of
              Inl e \<Rightarrow> Inl e
            | Inr largest_key \<Rightarrow> Inr (add_count d largest_key (n - total_calculated)))
         else Inr d)"





text \<open>
  The breakdown computed inside \<open>generate_mcqs\<close> (and, with the same text, inside
  \<open>generate_fill_in_blank\<close> and \<open>generate_true_false\<close>): one rounding of
  \<open>num_questions * diff_ratio * blooms_ratio\<close> per pair, key
  \<open>f"{difficulty}_{blooms}"\<close>, then the adjustment.
\<close>

definition breakdown_loop :: "int \<Rightarrow> dist \<Rightarrow> dist \<Rightarrow> (string \<times> specs) list" where
  "breakdown_loop num_questions difficulty_distribution blooms_taxonomy_distribution =
     foldl (\<lambda>acc (diff, diff_ratio).
         foldl (\<lambda>acc' (blooms, blooms_ratio).
             let cnt = py_round (of_int num_questions * diff_ratio * blooms_ratio)
             in if 0 < cnt then
                  dict_set acc' (diff @ ''_'' @ blooms)
                    \<lparr>difficulty = diff, blooms_level = blooms, count = cnt\<rparr>
                else acc')
           acc blooms_taxonomy_distribution)
       [] difficulty_distribution"

definition compute_question_breakdown :: "int \<Rightarrow> dist \<Rightarrow> dist \<Rightarrow> py_error + (string \<times> specs) list" where
  "compute_question_breakdown num_questions difficulty_distribution blooms_taxonomy_distribution =
     adjust num_questions
       (breakdown_loop num_questions difficulty_distribution blooms_taxonomy_distribution)"

section \<open>The sequence of labels\<close>

text \<open>
  \<open>create_question_sequence\<close> (the same function in utils_mcq, utils_fib and utils_tf):
  for every entry of the breakdown, in the order of \<open>items()\<close>, the pair
  \<open>(difficulty, blooms_level)\<close> is appended \<open>count\<close> times; \<open>range(count)\<close> is empty
  for a count that is not positive.
\<close>

fun append_times :: "nat \<Rightarrow> 'a \<Rightarrow> 'a list \<Rightarrow> 'a list" where
  "append_times 0 x sequence = sequence"
| "append_times (Suc n) x sequence = append_times n x (sequence @ [x])"

definition create_question_sequence :: "('k \<times> ('a specs_scheme)) list \<Rightarrow> (string \<times> string) list" where
  "create_question_sequence question_breakdown =
     foldl (\<lambda>sequence (combo_key, specs).
         append_times (nat (count specs)) (difficulty specs, blooms_level specs) sequence)
       [] question_breakdown"

section \<open>Strings\<close>

text \<open>
  A Python \<open>str\<close> is modelled as a \<open>string\<close> whose characters are the code points
  below 256. \<open>isspace\<close> and \<open>isdigit\<close> are Python's predicates on those code points.
  \<open>x in s\<close> for strings is \<^const>\<open>sublist\<close>.
\<close>

definition isspace :: "char \<Rightarrow> bool" where
  "isspace c =
     (let n = (of_char c :: nat)
      in (9 \<le> n \<and> n \<le> 13) \<or> (28 \<le> n \<and> n \<le> 32) \<or> n = 133 \<or> n = 160)"

definition isdigit :: "char \<Rightarrow> bool" where
  "isdigit c =
     (let n = (of_char c :: nat)
      in (48 \<le> n \<and> n \<le> 57) \<or> n = 178 \<or> n = 179 \<or> n = 185)"

definition py_strip :: "string \<Rightarrow> string" where
  "py_strip s = rev (dropWhile isspace (rev (dropWhile isspace s)))"

text \<open>
  \<open>s.split(sep)\<close>: the pieces between the occurrences of \<open>sep\<close>, found from the left
  without overlap. Python raises \<open>ValueError\<close> for an empty separator; every call of
  the source passes a non-empty literal, and the model leaves a text with an empty
  separator unsplit.
\<close>

function split_from :: "string \<Rightarrow> string \<Rightarrow> string \<Rightarrow> string list" where
  "split_from sep cur [] = [cur]"
| "split_from sep cur (c # cs) =
     (if sep \<noteq> [] \<and> prefix sep (c # cs)
      then cur # split_from sep [] (drop (length sep) (c # cs))
      else split_from sep (cur @ [c]) cs)"
  by pat_completeness auto
termination
  by (relation "measure (\<lambda>(sep, cur, s). length s)") auto

definition py_split :: "string \<Rightarrow> string \<Rightarrow> string list" where
  "py_split sep s = split_from sep [] s"

text \<open>\<open>s.split(sep, 1)\<close>: at most one split, at the first occurrence.\<close>

fun split_once_from :: "string \<Rightarrow> string \<Rightarrow> string \<Rightarrow> string list" where
  "split_once_from sep cur [] = [cur]"
| "split_once_from sep cur (c # cs) =
     (if sep \<noteq> [] \<and> prefix sep (c # cs)
      then [cur, drop (length sep) (c # cs)]
      else split_once_from sep (cur @ [c]) cs)"

definition py_split_once :: "string \<Rightarrow> string \<Rightarrow> string list" where
  "py_split_once sep s = split_once_from sep [] s"

text \<open>\<open>xs[i]\<close> for a literal index \<open>i \<ge> 0\<close>: \<open>IndexError\<close> out of range.\<close>

definition subscript :: "'a list \<Rightarrow> nat \<Rightarrow> py_error + 'a" where
  "subscript xs i = (if i < length xs then Inr (xs ! i) else Inl IndexError)"

definition bind_err :: "py_error + 'a \<Rightarrow> ('a \<Rightarrow> py_error + 'b) \<Rightarrow> py_error + 'b" where
  "bind_err m f = (case m of Inl e \<Rightarrow> Inl e | Inr x \<Rightarrow> f x)"

section \<open>The response parsers\<close>

text \<open>
  The three parsers split the response on the record-boundary token, drop the fragments
  that are empty after \<open>strip()\<close>, and strip the others:
  \<open>[b.strip() for b in blocks if b.strip()]\<close>. A preamble before the first token
  that is not blank is a fragment like the others. In utils_mcq.py and utils_tf.py every
  double quote is stored with a backslash before it; the two files are read as the Python
  they spell, which is the text of utils_fib.py up to the names of the fields. The parsers
  end by writing the records to \<open>file_name\<close>; opening and writing the file is
  outside the model.
\<close>

definition fragments :: "string \<Rightarrow> string \<Rightarrow> string list" where
  "fragments boundary res = map py_strip (filter (\<lambda>b. py_strip b \<noteq> []) (py_split boundary res))"

text \<open>
  All three loop bodies begin with
  \<^verbatim>\<open>
    if "ANSWER:" in block:
        question_obj[...] = block.split("ANSWER:")[0].strip()
        block = "ANSWER:" + block.split("ANSWER:")[1]
  \<close>
  \<open>take_question\<close> returns the value stored (\<open>None\<close> when nothing is stored) and the
  new \<open>block\<close>.
\<close>

definition take_question :: "string \<Rightarrow> py_error + (string option \<times> string)" where
  "take_question block =
     (if sublist ''ANSWER:'' block then
        bind_err (subscript (py_split ''ANSWER:'' block) 0) (\<lambda>q.
        bind_err (subscript (py_split ''ANSWER:'' block) 1) (\<lambda>rest.
        Inr (Some (py_strip q), ''ANSWER:'' @ rest)))
      else Inr (None, block))"

text \<open>\<open>block.split("ANSWER:")[1].split("EXPLANATION:")[0]\<close>\<close>

definition answer_part :: "string \<Rightarrow> py_error + string" where
  "answer_part block =
     bind_err (subscript (py_split ''ANSWER:'' block) 1) (\<lambda>a.
     subscript (py_split ''EXPLANATION:'' a) 0)"

subsection \<open>Multiple choice: \<open>parse_mcq\<close>\<close>

text \<open>The keys of \<open>question_obj\<close> in \<open>parse_mcq\<close>, each field named after its key.\<close>

record mcq_obj =
  mcq_question :: string
  mcq_answer :: string
  mcq_explanation :: string
  mcq_distractors :: "string list"
  mcq_difficulty :: string
  mcq_blooms_level :: string
  mcq_question_type :: string

definition mcq_default :: mcq_obj where
  "mcq_default = \<lparr>mcq_question = [], mcq_answer = [], mcq_explanation = [],
     mcq_distractors = [], mcq_difficulty = [], mcq_blooms_level = [],
     mcq_question_type = ''mcq''\<rparr>"

text \<open>
  \<^verbatim>\<open>
    if "ANSWER:" in block and "EXPLANATION:" in block:
        question_obj["answer"] = block.split("ANSWER:")[1].split("EXPLANATION:")[0].strip()
        block = "EXPLANATION:" + block.split("EXPLANATION:")[1]
  \<close>
\<close>

definition mcq_take_answer :: "mcq_obj \<Rightarrow> string \<Rightarrow> py_error + (mcq_obj \<times> string)" where
  "mcq_take_answer obj block =
     (if sublist ''ANSWER:'' block \<and> sublist ''EXPLANATION:'' block then
        bind_err (answer_part block) (\<lambda>a.
        bind_err (subscript (py_split ''EXPLANATION:'' block) 1) (\<lambda>rest.
        Inr (obj\<lparr>mcq_answer := py_strip a\<rparr>, ''EXPLANATION:'' @ rest)))
      else Inr (obj, block))"

text \<open>
  \<^verbatim>\<open>
    if "EXPLANATION:" in block:
        explanation_text = block.split("EXPLANATION:")[1]
        if "DISTRACTOR1:" in explanation_text:
            question_obj["explanation"] = explanation_text.split("DISTRACTOR1:")[0].strip()
        else:
            question_obj["explanation"] = explanation_text.strip()
  \<close>
\<close>

definition mcq_take_explanation :: "mcq_obj \<Rightarrow> string \<Rightarrow> py_error + mcq_obj" where
  "mcq_take_explanation obj block =
     (if sublist ''EXPLANATION:'' block then
        bind_err (subscript (py_split ''EXPLANATION:'' block) 1) (\<lambda>explanation_text.
        if sublist ''DISTRACTOR1:'' explanation_text then
          bind_err (subscript (py_split ''DISTRACTOR1:'' explanation_text) 0) (\<lambda>e.
          Inr (obj\<lparr>mcq_explanation := py_strip e\<rparr>))
        else Inr (obj\<lparr>mcq_explanation := py_strip explanation_text\<rparr>))
      else Inr obj)"

text \<open>
  The loop over \<open>enumerate(distractor_keys)\<close>. The recursion runs over the keys still to
  visit, so \<open>distractor_keys[i+1] if i+1 < len(distractor_keys) else None\<close> is the head of
  the rest; \<open>next_key and next_key in block\<close> is false for \<open>None\<close>.
\<close>

fun take_distractors :: "string \<Rightarrow> string list \<Rightarrow> mcq_obj \<Rightarrow> py_error + mcq_obj" where
  "take_distractors block [] obj = Inr obj"
| "take_distractors block (key # keys) obj =
     (if sublist key block then
        (case subscript (py_split key block) 1 of
           Inl e \<Rightarrow> Inl e
         | Inr after \<Rightarrow>
             (case (case keys of
                      next_key # _ \<Rightarrow>
                        if next_key \<noteq> [] \<and> sublist next_key block
                        then subscript (py_split next_key after) 0
                        else Inr after
                    | [] \<Rightarrow> Inr after) of
                Inl e \<Rightarrow> Inl e
              | Inr distractor \<Rightarrow>
                  take_distractors block keys
                    (obj\<lparr>mcq_distractors := mcq_distractors obj @ [py_strip distractor]\<rparr>)))
      else take_distractors block keys obj)"

definition distractor_keys :: "string list" where
  "distractor_keys = [''DISTRACTOR1:'', ''DISTRACTOR2:'', ''DISTRACTOR3:'']"

text \<open>The loop body of \<open>parse_mcq\<close> up to the distractors.\<close>

definition mcq_fields :: "string \<Rightarrow> py_error + mcq_obj" where
  "mcq_fields block =
     bind_err (take_question block) (\<lambda>(q, block1).
     bind_err (mcq_take_answer
         (case q of Some v \<Rightarrow> mcq_default\<lparr>mcq_question := v\<rparr> | None \<Rightarrow> mcq_default) block1)
       (\<lambda>(obj2, block2).
     bind_err (mcq_take_explanation obj2 block2) (\<lambda>obj3.
     take_distractors block2 distractor_keys obj3)))"

text \<open>
  The loop of \<open>parse_mcq\<close> with its two variables, \<open>question_index\<close> and \<open>responses\<close>:
  \<^verbatim>\<open>
    if question_index < len(question_sequence):
        difficulty, blooms_level = question_sequence[question_index]
        question_obj["difficulty"] = difficulty
        question_obj["blooms_level"] = blooms_level
        question_index += 1
    responses.append(question_obj)
  \<close>
\<close>

fun mcq_loop :: "(string \<times> string) list \<Rightarrow> string list \<Rightarrow> nat \<Rightarrow> mcq_obj list
    \<Rightarrow> py_error + mcq_obj list" where
  "mcq_loop question_sequence [] question_index responses = Inr responses"
| "mcq_loop question_sequence (block # blocks) question_index responses =
     (case mcq_fields block of
        Inl e \<Rightarrow> Inl e
      | Inr obj \<Rightarrow>
          if question_index < length question_sequence then
            mcq_loop question_sequence blocks (question_index + 1)
              (responses @ [obj\<lparr>mcq_difficulty := fst (question_sequence ! question_index),
                               mcq_blooms_level := snd (question_sequence ! question_index)\<rparr>])
          else mcq_loop question_sequence blocks question_index (responses @ [obj]))"

text \<open>
  \<open>parse_mcq\<close> writes \<open>{"response": responses}\<close> to \<open>file_name\<close>; the model returns
  \<open>responses\<close>, the value written.
\<close>

definition parse_mcq :: "string \<Rightarrow> ('k \<times> ('a specs_scheme)) list \<Rightarrow> py_error + mcq_obj list" where
  "parse_mcq res question_breakdown =
     mcq_loop (create_question_sequence question_breakdown) (fragments ''QUESTION:'' res) 0 []"

subsection \<open>True/false: \<open>parse_true_false\<close>\<close>








subsection \<open>Fill in the blank: \<open>parse_fill_in_blank\<close>\<close>

record fib_obj =
  fib_question :: string
  fib_answer :: "string list"
  fib_explanation :: string
  fib_difficulty :: string
  fib_blooms_level :: string
  fib_question_type :: string

definition fib_default :: fib_obj where
  "fib_default = \<lparr>fib_question = [], fib_answer = [], fib_explanation = [],
     fib_difficulty = [], fib_blooms_level = [], fib_question_type = ''fib''\<rparr>"

text \<open>
  The loop over the lines of the answer:
  \<^verbatim>\<open>
    for line in answer_lines:
        line = line.strip()
        # Check if line starts with a number followed by a period (e.g., "1. ")
        if line and (line[0].isdigit() and '. ' in line):
            # Remove the numbering and add to the list
            answer_item = line.split('. ', 1)[1].strip()
            question_obj["answer"].append(answer_item)
        elif line:  # If there's text but not in numbered format
            question_obj["answer"].append(line)
  \<close>
  \<open>line[0]\<close> is read only when \<open>line\<close> is not empty.
\<close>

fun answer_lines :: "string list \<Rightarrow> string list \<Rightarrow> py_error + string list" where
  "answer_lines [] answer = Inr answer"
| "answer_lines (l # ls) answer =
     (let line = py_strip l
      in if (case line of [] \<Rightarrow> False | c # _ \<Rightarrow> isdigit c \<and> sublist ''. '' line) then
           (case subscript (py_split_once ''. '' line) 1 of
              Inl e \<Rightarrow> Inl e
            | Inr answer_item \<Rightarrow> answer_lines ls (answer @ [py_strip answer_item]))
         else if line \<noteq> [] then answer_lines ls (answer @ [line])
         else answer_lines ls answer)"

text \<open>
  \<^verbatim>\<open>
    if "ANSWER:" in block and "EXPLANATION:" in block:
        answer_text = block.split("ANSWER:")[1].split("EXPLANATION:")[0].strip()
        answer_lines = answer_text.split('\n')
        for line in answer_lines: ...
    if "EXPLANATION:" in block:
        explanation_text = block.split("EXPLANATION:")[1]
        question_obj["explanation"] = explanation_text.strip()
  \<close>
\<close>

definition fib_answer_of :: "string \<Rightarrow> py_error + string list" where
  "fib_answer_of answer_text = answer_lines (py_split [CHR 0x0A] answer_text) []"

definition fib_take_answer :: "fib_obj \<Rightarrow> string \<Rightarrow> py_error + fib_obj" where
  "fib_take_answer obj block =
     (if sublist ''ANSWER:'' block \<and> sublist ''EXPLANATION:'' block then
        bind_err (answer_part block) (\<lambda>a.
        bind_err (fib_answer_of (py_strip a)) (\<lambda>items.
        Inr (obj\<lparr>fib_answer := fib_answer obj @ items\<rparr>)))
      else Inr obj)"

definition fib_take_explanation :: "fib_obj \<Rightarrow> string \<Rightarrow> py_error + fib_obj" where
  "fib_take_explanation obj block =
     (if sublist ''EXPLANATION:'' block then
        bind_err (subscript (py_split ''EXPLANATION:'' block) 1) (\<lambda>explanation_text.
        Inr (obj\<lparr>fib_explanation := py_strip explanation_text\<rparr>))
      else Inr obj)"

definition fib_fields :: "string \<Rightarrow> py_error + fib_obj" where
  "fib_fields block =
     bind_err (take_question block) (\<lambda>(q, block1).
     bind_err (fib_take_answer
         (case q of Some v \<Rightarrow> fib_default\<lparr>fib_question := v\<rparr> | None \<Rightarrow> fib_default) block1)
       (\<lambda>obj2.
     fib_take_explanation obj2 block1))"

fun fib_loop :: "(string \<times> string) list \<Rightarrow> string list \<Rightarrow> nat \<Rightarrow> fib_obj list
    \<Rightarrow> py_error + fib_obj list" where
  "fib_loop question_sequence [] question_index responses = Inr responses"
| "fib_loop question_sequence (block # blocks) question_index responses =
     (case fib_fields block of
        Inl e \<Rightarrow> Inl e
      | Inr obj \<Rightarrow>
          if question_index < length question_sequence then
            fib_loop question_sequence blocks (question_index + 1)
              (responses @ [obj\<lparr>fib_difficulty := fst (question_sequence ! question_index),
                               fib_blooms_level := snd (question_sequence ! question_index)\<rparr>])
          else fib_loop question_sequence blocks question_index (responses @ [obj]))"

definition parse_fill_in_blank :: "string \<Rightarrow> ('k \<times> ('a specs_scheme)) list \<Rightarrow> py_error + fib_obj list" where
  "parse_fill_in_blank res question_breakdown =
     fib_loop (create_question_sequence question_breakdown) (fragments ''QUESTION:'' res) 0 []"

section \<open>The orchestrator: \<open>generate_questions\<close>\<close>


text \<open>\<open>total_for_type = sum([config['count'] for config in configs])\<close>\<close>

definition total_for_type :: "config list \<Rightarrow> int" where
  "total_for_type configs = sum_list (map count configs)"

text \<open>
  \<open>count / total_for_type\<close> is Python's true division: \<open>ZeroDivisionError\<close> for a zero
  divisor, the exact quotient here.
\<close>

definition py_truediv :: "int \<Rightarrow> int \<Rightarrow> py_error + rat" where
  "py_truediv a b = (if b = 0 then Inl ZeroDivisionError else Inr (of_int a / of_int b))"

text \<open>
  \<^verbatim>\<open>
    if k not in d:
        d[k] = 0
    d[k] += x
  \<close>
\<close>

definition accumulate :: "dist \<Rightarrow> string \<Rightarrow> rat \<Rightarrow> dist" where
  "accumulate d k x =
     (case dict_get d k of None \<Rightarrow> dict_set d k (0 + x) | Some v \<Rightarrow> dict_set d k (v + x))"

text \<open>
  The loop that builds \<open>difficulty_dist_for_type\<close> and \<open>blooms_dist_for_type\<close>:
  \<^verbatim>\<open>
    for config in configs:
        diff = config['difficulty']
        blooms = config['blooms_level']
        count = config['count']
        ...
        difficulty_dist_for_type[diff] += count / total_for_type
        blooms_dist_for_type[blooms] += count / total_for_type
  \<close>
\<close>

fun dists_loop :: "config list \<Rightarrow> int \<Rightarrow> dist \<Rightarrow> dist \<Rightarrow> py_error + (dist \<times> dist)" where
  "dists_loop [] n difficulty_dist_for_type blooms_dist_for_type =
     Inr (difficulty_dist_for_type, blooms_dist_for_type)"
| "dists_loop (config # configs) n difficulty_dist_for_type blooms_dist_for_type =
     (case py_truediv (count config) n of
        Inl e \<Rightarrow> Inl e
      | Inr x \<Rightarrow>
          dists_loop configs n
            (accumulate difficulty_dist_for_type (difficulty config) x)
            (accumulate blooms_dist_for_type (blooms_level config) x))"

definition dists_for_type :: "config list \<Rightarrow> py_error + (dist \<times> dist)" where
  "dists_for_type configs = dists_loop configs (total_for_type configs) [] []"


text \<open>
  A job is the body of the \<open>try\<close> of \<open>generate_single_question_type_sync\<close>: it returns
  the file name and the data read back, or raises an exception \<open>e\<close>, of which the
  handler keeps \<open>str(e)\<close>:
  \<^verbatim>\<open>
        return question_type, file_name, question_data, None
    except Exception as e:
        ...
        return question_type, None, None, str(e)
  \<close>
\<close>

datatype 'd job_outcome = Completed string 'd | Raised string

type_synonym 'd job_result = "string \<times> string option \<times> 'd option \<times> string option"

fun generate_single_question_type_sync :: "string \<Rightarrow> 'd job_outcome \<Rightarrow> 'd job_result" where
  "generate_single_question_type_sync q_type (Completed file_name question_data) =
     (q_type, Some file_name, Some question_data, None)"
| "generate_single_question_type_sync q_type (Raised msg) =
     (q_type, None, None, Some msg)"

text \<open>
  An entry of \<open>results\<close> after \<open>asyncio.gather(*futures, return_exceptions=True)\<close>:
  the tuple a job returned, an \<open>Exception\<close> object, or an object of another
  \<open>BaseException\<close> class.
\<close>

datatype 'd gathered = Returned "'d job_result" | ExceptionObject string | BaseExceptionObject

text \<open>\<open>if error:\<close> on a value that is \<open>None\<close> or a string: true for a non-empty string.\<close>

fun truthy :: "string option \<Rightarrow> bool" where
  "truthy None = False"
| "truthy (Some s) = (s \<noteq> [])"

text \<open>
  \<^verbatim>\<open>
    for result in results:
        if isinstance(result, Exception):
            raise result
        question_type, file_name, question_data, error = result
        if error:
            raise Exception(f"Error in {question_type}: {error}")
        files_generated.append(file_name)
        all_question_data[question_type] = question_data
  \<close>
  Unpacking an exception object that is not an \<open>Exception\<close> raises \<open>TypeError\<close>.
\<close>

fun process_results :: "'d gathered list \<Rightarrow> string option list \<Rightarrow> (string \<times> 'd option) list
    \<Rightarrow> py_error + (string option list \<times> (string \<times> 'd option) list)" where
  "process_results [] files_generated all_question_data =
     Inr (files_generated, all_question_data)"
| "process_results (ExceptionObject e # results) files_generated all_question_data =
     Inl (Reraised e)"
| "process_results (BaseExceptionObject # results) files_generated all_question_data =
     Inl TypeError"
| "process_results (Returned (q_type, file_name, question_data, error) # results)
       files_generated all_question_data =
     (if truthy error then Inl (JobError q_type (case error of Some msg \<Rightarrow> msg | None \<Rightarrow> []))
      else process_results results (files_generated @ [file_name])
             (dict_set all_question_data q_type question_data))"

text \<open>
  One run of the orchestrator over the jobs of the types, each given by its type and
  its outcome: every job runs to its end, then the results are processed in the order
  of the types.
\<close>

definition run_jobs :: "(string \<times> 'd job_outcome) list
    \<Rightarrow> py_error + (string option list \<times> (string \<times> 'd option) list)" where
  "run_jobs jobs =
     process_results
       (map (\<lambda>(q_type, outcome).
           Returned (generate_single_question_type_sync q_type outcome)) jobs)
       [] []"

section \<open>Comparing the allocation of a type with the global one\<close>





section \<open>Properties of the allocation\<close>





section \<open>Properties of the string operations\<close>

lemma split_from_nonempty: "split_from sep cur s \<noteq> []"
  by (induction sep cur s rule: split_from.induct) auto

lemma split_from_first:
  "sep \<noteq> [] \<Longrightarrow> sublist sep s \<Longrightarrow>
   \<exists>ps rest. s = ps @ sep @ rest \<and> split_from sep cur s = (cur @ ps) # split_from sep [] rest"
proof (induction sep cur s rule: split_from.induct)
  case (1 sep cur)
  then show ?case by simp
next
  case (2 sep cur c cs)
  show ?case
  proof (cases "prefix sep (c # cs)")
    case True
    then obtain rest where r: "c # cs = sep @ rest" by (auto simp: prefix_def)
    then have b: "drop (length sep) (c # cs) = rest" by simp
    have "split_from sep cur (c # cs) = cur # split_from sep [] (drop (length sep) (c # cs))"
      using True 2(3) by simp
    then have "split_from sep cur (c # cs) = (cur @ []) # split_from sep [] rest"
      unfolding b by simp
    moreover have "c # cs = [] @ sep @ rest" using r by simp
    ultimately show ?thesis by blast
  next
    case False
    with 2(4) have "sublist sep cs" by (simp add: sublist_Cons_right)
    with 2(2)[OF _ 2(3)] False obtain ps rest where
      "cs = ps @ sep @ rest" "split_from sep (cur @ [c]) cs = ((cur @ [c]) @ ps) # split_from sep [] rest"
      by auto
    with False have "c # cs = (c # ps) @ sep @ rest \<and>
        split_from sep cur (c # cs) = (cur @ (c # ps)) # split_from sep [] rest" by simp
    then show ?thesis by blast
  qed
qed

lemma split_from_hd_prefix: "split_from sep cur s = x # xs \<Longrightarrow> prefix x (cur @ s)"
proof (induction sep cur s arbitrary: x xs rule: split_from.induct)
  case (1 sep cur)
  then show ?case by simp
next
  case (2 sep cur c cs)
  then show ?case by (auto split: if_splits)
qed

lemma py_split_0: "\<exists>x. subscript (py_split sep s) 0 = Inr x \<and> prefix x s"
proof -
  obtain x xs where "split_from sep [] s = x # xs"
    using split_from_nonempty[of sep "[]" s] by (cases "split_from sep [] s") auto
  then show ?thesis
    using split_from_hd_prefix[of sep "[]" s x xs] by (simp add: subscript_def py_split_def)
qed

lemma py_split_1:
  assumes "sep \<noteq> []" "sublist sep s"
  shows "\<exists>x. subscript (py_split sep s) 1 = Inr x \<and> sublist (sep @ x) s"
proof -
  from split_from_first[OF assms, of "[]"] obtain ps rest where
    s: "s = ps @ sep @ rest" and sp: "split_from sep [] s = ps # split_from sep [] rest"
    by auto
  obtain x xs where x: "split_from sep [] rest = x # xs"
    using split_from_nonempty[of sep "[]" rest] by (cases "split_from sep [] rest") auto
  from split_from_hd_prefix[OF x] obtain ss where "rest = x @ ss" by (auto simp: prefix_def)
  with s have "s = ps @ (sep @ x) @ ss" by simp
  then have "sublist (sep @ x) s" unfolding sublist_def by blast
  with sp x show ?thesis by (simp add: subscript_def py_split_def)
qed

lemma split_once_from_length:
  "sep \<noteq> [] \<Longrightarrow> sublist sep s \<Longrightarrow> length (split_once_from sep cur s) = 2"
  by (induction sep cur s rule: split_once_from.induct) (auto simp: sublist_Cons_right)

lemma sublist_strip: "sublist (py_strip s) s"
proof -
  have "sublist (rev (dropWhile isspace (rev (dropWhile isspace s)))) (dropWhile isspace s)"
    by (simp add: sublist_rev_left)
  also have "sublist (dropWhile isspace s) s" by simp
  finally show ?thesis by (simp add: py_strip_def)
qed

section \<open>Properties of the field extraction\<close>

lemma sublist_trans: "sublist xs ys \<Longrightarrow> sublist ys zs \<Longrightarrow> sublist xs zs"
  by (rule sublist_order.order.trans)

lemma not_sublist_mono: "sublist ys zs \<Longrightarrow> \<not> sublist xs zs \<Longrightarrow> \<not> sublist xs ys"
  using sublist_trans by blast

lemma take_question_cases:
  "\<exists>q block1. take_question block = Inr (q, block1) \<and> sublist block1 block \<and>
     (\<not> sublist ''ANSWER:'' block \<longrightarrow> q = None \<and> block1 = block)"
proof (cases "sublist ''ANSWER:'' block")
  case True
  obtain x where x: "subscript (py_split ''ANSWER:'' block) 0 = Inr x"
    using py_split_0 by blast
  obtain y where y: "subscript (py_split ''ANSWER:'' block) 1 = Inr y"
      "sublist (''ANSWER:'' @ y) block"
    using py_split_1[OF _ True] by auto
  with True x show ?thesis by (simp add: take_question_def bind_err_def)
next
  case False
  then show ?thesis by (simp add: take_question_def)
qed

lemma answer_part_total: "sublist ''ANSWER:'' block \<Longrightarrow> \<exists>a. answer_part block = Inr a"
proof -
  assume a: "sublist ''ANSWER:'' block"
  obtain y where y: "subscript (py_split ''ANSWER:'' block) 1 = Inr y"
    using py_split_1[OF _ a] by auto
  obtain x where "subscript (py_split ''EXPLANATION:'' y) 0 = Inr x"
    using py_split_0 by blast
  with y show ?thesis by (simp add: answer_part_def bind_err_def)
qed

lemma mcq_take_answer_cases:
  "\<exists>obj' block2. mcq_take_answer obj block = Inr (obj', block2) \<and> sublist block2 block \<and>
     obj' = obj\<lparr>mcq_answer := mcq_answer obj'\<rparr> \<and>
     (\<not> sublist ''ANSWER:'' block \<longrightarrow> obj' = obj \<and> block2 = block)"
proof (cases "sublist ''ANSWER:'' block \<and> sublist ''EXPLANATION:'' block")
  case True
  obtain a where a: "answer_part block = Inr a"
    using answer_part_total True by blast
  obtain y where y: "subscript (py_split ''EXPLANATION:'' block) 1 = Inr y"
      "sublist (''EXPLANATION:'' @ y) block"
    using py_split_1[of "''EXPLANATION:''" block] True by auto
  with True a show ?thesis by (simp add: mcq_take_answer_def bind_err_def)
next
  case False
  then show ?thesis by (auto simp add: mcq_take_answer_def)
qed

lemma mcq_take_explanation_cases:
  "\<exists>obj'. mcq_take_explanation obj block = Inr obj' \<and>
     obj' = obj\<lparr>mcq_explanation := mcq_explanation obj'\<rparr> \<and>
     (\<not> sublist ''EXPLANATION:'' block \<longrightarrow> obj' = obj)"
proof (cases "sublist ''EXPLANATION:'' block")
  case True
  obtain y where y: "subscript (py_split ''EXPLANATION:'' block) 1 = Inr y"
    using py_split_1[of "''EXPLANATION:''" block] True by auto
  obtain x where x: "subscript (py_split ''DISTRACTOR1:'' y) 0 = Inr x"
    using py_split_0 by blast
  with True y show ?thesis by (simp add: mcq_take_explanation_def bind_err_def)
next
  case False
  then show ?thesis by (auto simp add: mcq_take_explanation_def)
qed

lemma take_distractors_cases:
  "[] \<notin> set keys \<Longrightarrow>
   \<exists>obj'. take_distractors block keys obj = Inr obj' \<and>
     obj' = obj\<lparr>mcq_distractors := mcq_distractors obj'\<rparr> \<and>
     ((\<forall>k\<in>set keys. \<not> sublist k block) \<longrightarrow> obj' = obj)"
proof (induction keys arbitrary: obj)
  case Nil
  then show ?case by simp
next
  case (Cons key keys)
  then have key: "key \<noteq> []" and keys: "[] \<notin> set keys" by auto
  show ?case
  proof (cases "sublist key block")
    case True
    obtain after where after: "subscript (py_split key block) 1 = Inr after"
      using py_split_1[OF key True] by auto
    have "\<exists>d. (case keys of
                  next_key # _ \<Rightarrow>
                    if next_key \<noteq> [] \<and> sublist next_key block
                    then subscript (py_split next_key after) 0
                    else Inr after
                | [] \<Rightarrow> Inr after) = Inr d"
      using py_split_0 by (auto split: list.splits)
    then obtain d where d: "(case keys of
                  next_key # _ \<Rightarrow>
                    if next_key \<noteq> [] \<and> sublist next_key block
                    then subscript (py_split next_key after) 0
                    else Inr after
                | [] \<Rightarrow> Inr after) = Inr d" ..
    define obj1 where "obj1 = obj\<lparr>mcq_distractors := mcq_distractors obj @ [py_strip d]\<rparr>"
    from Cons.IH[OF keys, of obj1]
    obtain obj' where o: "take_distractors block keys obj1 = Inr obj'"
      "obj' = obj1\<lparr>mcq_distractors := mcq_distractors obj'\<rparr>"
      by blast
    from o(2) have "obj' = obj\<lparr>mcq_distractors := mcq_distractors obj'\<rparr>"
      by (simp add: obj1_def)
    moreover have "take_distractors block (key # keys) obj = Inr obj'"
      using True after d o(1) by (simp add: obj1_def)
    ultimately show ?thesis using True by auto
  next
    case False
    with Cons.IH[OF keys, of obj] show ?thesis by auto
  qed
qed

lemma mcq_fields_cases:
  "\<exists>obj. mcq_fields block = Inr obj \<and>
     mcq_difficulty obj = [] \<and> mcq_blooms_level obj = [] \<and> mcq_question_type obj = ''mcq'' \<and>
     (\<not> sublist ''ANSWER:'' block \<longrightarrow> mcq_answer obj = []) \<and>
     (\<not> sublist ''EXPLANATION:'' block \<longrightarrow> mcq_explanation obj = []) \<and>
     ((\<forall>k\<in>set distractor_keys. \<not> sublist k block) \<longrightarrow> mcq_distractors obj = [])"
proof -
  obtain q block1 where q: "take_question block = Inr (q, block1)" "sublist block1 block"
      "\<not> sublist ''ANSWER:'' block \<longrightarrow> q = None \<and> block1 = block"
    using take_question_cases by blast
  define obj1 where "obj1 = (case q of Some v \<Rightarrow> mcq_default\<lparr>mcq_question := v\<rparr> | None \<Rightarrow> mcq_default)"
  have obj1: "obj1 = mcq_default\<lparr>mcq_question := mcq_question obj1\<rparr>"
    by (simp add: obj1_def mcq_default_def split: option.splits)
  obtain obj2 block2 where a: "mcq_take_answer obj1 block1 = Inr (obj2, block2)"
      "sublist block2 block1" "obj2 = obj1\<lparr>mcq_answer := mcq_answer obj2\<rparr>"
      "\<not> sublist ''ANSWER:'' block1 \<longrightarrow> obj2 = obj1 \<and> block2 = block1"
    using mcq_take_answer_cases by blast
  obtain obj3 where e: "mcq_take_explanation obj2 block2 = Inr obj3"
      "obj3 = obj2\<lparr>mcq_explanation := mcq_explanation obj3\<rparr>"
      "\<not> sublist ''EXPLANATION:'' block2 \<longrightarrow> obj3 = obj2"
    using mcq_take_explanation_cases by blast
  have "[] \<notin> set distractor_keys" by (simp add: distractor_keys_def)
  from take_distractors_cases[OF this, of block2 obj3]
  obtain obj4 where d: "take_distractors block2 distractor_keys obj3 = Inr obj4"
      "obj4 = obj3\<lparr>mcq_distractors := mcq_distractors obj4\<rparr>"
      "(\<forall>k\<in>set distractor_keys. \<not> sublist k block2) \<longrightarrow> obj4 = obj3"
    by blast
  have b2: "sublist block2 block" using a(2) q(2) by (rule sublist_trans)
  have res: "mcq_fields block = Inr obj4"
    using q(1) a(1) e(1) d(1) by (simp add: mcq_fields_def bind_err_def obj1_def)
  have shape: "obj4 = mcq_default\<lparr>mcq_question := mcq_question obj1, mcq_answer := mcq_answer obj2,
      mcq_explanation := mcq_explanation obj3, mcq_distractors := mcq_distractors obj4\<rparr>"
    using obj1 a(3) e(2) d(2) by metis
  have meta: "mcq_difficulty obj4 = [] \<and> mcq_blooms_level obj4 = [] \<and> mcq_question_type obj4 = ''mcq''"
    by (subst shape, simp add: mcq_default_def)+
  have o1: "mcq_answer obj1 = []" "mcq_explanation obj1 = []" "mcq_distractors obj1 = []"
    by (simp_all add: obj1_def mcq_default_def split: option.splits)
  have o2: "mcq_explanation obj2 = mcq_explanation obj1"
      "mcq_distractors obj2 = mcq_distractors obj1"
    by (subst a(3), simp)+
  have o3: "mcq_distractors obj3 = mcq_distractors obj2" "mcq_answer obj3 = mcq_answer obj2"
    by (subst e(2), simp)+
  have o4: "mcq_answer obj4 = mcq_answer obj3" "mcq_explanation obj4 = mcq_explanation obj3"
    by (subst d(2), simp)+
  have ans: "mcq_answer obj4 = []" if "\<not> sublist ''ANSWER:'' block"
  proof -
    from that q(3) have "block1 = block" by simp
    with that a(4) have "obj2 = obj1" by simp
    with o1 o3 o4 show ?thesis by simp
  qed
  have expl: "mcq_explanation obj4 = []" if "\<not> sublist ''EXPLANATION:'' block"
  proof -
    from b2 that have "\<not> sublist ''EXPLANATION:'' block2" by (rule not_sublist_mono)
    with e(3) have "obj3 = obj2" by simp
    with o1 o2 o4 show ?thesis by simp
  qed
  have dis: "mcq_distractors obj4 = []" if "\<forall>k\<in>set distractor_keys. \<not> sublist k block"
  proof -
    from that b2 have "\<forall>k\<in>set distractor_keys. \<not> sublist k block2"
      using not_sublist_mono by blast
    with d(3) have "obj4 = obj3" by simp
    with o1 o2 o3 show ?thesis by simp
  qed
  from res meta ans expl dis show ?thesis by blast
qed




lemma answer_lines_total: "\<exists>items. answer_lines ls answer = Inr items"
proof (induction ls arbitrary: answer)
  case Nil
  show ?case by simp
next
  case (Cons l ls)
  show ?case
  proof (cases "case py_strip l of [] \<Rightarrow> False | c # _ \<Rightarrow> isdigit c \<and> sublist ''. '' (py_strip l)")
    case True
    then have "sublist ''. '' (py_strip l)" by (auto split: list.splits)
    then have "length (py_split_once ''. '' (py_strip l)) = 2"
      by (simp add: py_split_once_def split_once_from_length)
    then obtain item where "subscript (py_split_once ''. '' (py_strip l)) 1 = Inr item"
      by (simp add: subscript_def)
    with True Cons.IH[of "answer @ [py_strip item]"] show ?thesis by (simp add: Let_def)
  next
    case False
    with Cons.IH[of "answer @ [py_strip l]"] Cons.IH[of answer] show ?thesis
      by (simp add: Let_def)
  qed
qed

lemma fib_take_answer_cases:
  "\<exists>obj'. fib_take_answer obj block = Inr obj' \<and> obj' = obj\<lparr>fib_answer := fib_answer obj'\<rparr> \<and>
     (\<not> sublist ''ANSWER:'' block \<longrightarrow> obj' = obj)"
proof (cases "sublist ''ANSWER:'' block \<and> sublist ''EXPLANATION:'' block")
  case True
  obtain a where a: "answer_part block = Inr a"
    using answer_part_total True by blast
  obtain items where "fib_answer_of (py_strip a) = Inr items"
    using answer_lines_total by (auto simp: fib_answer_of_def)
  with True a show ?thesis by (simp add: fib_take_answer_def bind_err_def)
next
  case False
  then show ?thesis by (auto simp add: fib_take_answer_def)
qed

lemma fib_take_explanation_cases:
  "\<exists>obj'. fib_take_explanation obj block = Inr obj' \<and>
     obj' = obj\<lparr>fib_explanation := fib_explanation obj'\<rparr> \<and>
     (\<not> sublist ''EXPLANATION:'' block \<longrightarrow> obj' = obj)"
proof (cases "sublist ''EXPLANATION:'' block")
  case True
  obtain y where y: "subscript (py_split ''EXPLANATION:'' block) 1 = Inr y"
    using py_split_1[of "''EXPLANATION:''" block] True by auto
  with True show ?thesis by (simp add: fib_take_explanation_def bind_err_def)
next
  case False
  then show ?thesis by (auto simp add: fib_take_explanation_def)
qed

lemma fib_fields_cases:
  "\<exists>obj. fib_fields block = Inr obj \<and>
     fib_difficulty obj = [] \<and> fib_blooms_level obj = [] \<and> fib_question_type obj = ''fib'' \<and>
     (\<not> sublist ''ANSWER:'' block \<longrightarrow> fib_answer obj = []) \<and>
     (\<not> sublist ''EXPLANATION:'' block \<longrightarrow> fib_explanation obj = [])"
proof -
  obtain q block1 where q: "take_question block = Inr (q, block1)" "sublist block1 block"
      "\<not> sublist ''ANSWER:'' block \<longrightarrow> q = None \<and> block1 = block"
    using take_question_cases by blast
  define obj1 where "obj1 = (case q of Some v \<Rightarrow> fib_default\<lparr>fib_question := v\<rparr> | None \<Rightarrow> fib_default)"
  have o1: "fib_answer obj1 = []" "fib_explanation obj1 = []" "fib_difficulty obj1 = []"
      "fib_blooms_level obj1 = []" "fib_question_type obj1 = ''fib''"
    by (simp_all add: obj1_def fib_default_def split: option.splits)
  obtain obj2 where a: "fib_take_answer obj1 block1 = Inr obj2"
      "obj2 = obj1\<lparr>fib_answer := fib_answer obj2\<rparr>"
      "\<not> sublist ''ANSWER:'' block1 \<longrightarrow> obj2 = obj1"
    using fib_take_answer_cases by blast
  obtain obj3 where e: "fib_take_explanation obj2 block1 = Inr obj3"
      "obj3 = obj2\<lparr>fib_explanation := fib_explanation obj3\<rparr>"
      "\<not> sublist ''EXPLANATION:'' block1 \<longrightarrow> obj3 = obj2"
    using fib_take_explanation_cases by blast
  have res: "fib_fields block = Inr obj3"
    using q(1) a(1) e(1) by (simp add: fib_fields_def bind_err_def obj1_def)
  have o2: "fib_explanation obj2 = fib_explanation obj1" "fib_difficulty obj2 = fib_difficulty obj1"
      "fib_blooms_level obj2 = fib_blooms_level obj1"
      "fib_question_type obj2 = fib_question_type obj1"
    by (subst a(2), simp)+
  have o3: "fib_answer obj3 = fib_answer obj2" "fib_difficulty obj3 = fib_difficulty obj2"
      "fib_blooms_level obj3 = fib_blooms_level obj2"
      "fib_question_type obj3 = fib_question_type obj2"
    by (subst e(2), simp)+
  have ans: "fib_answer obj3 = []" if "\<not> sublist ''ANSWER:'' block"
  proof -
    from that q(3) have "block1 = block" by simp
    with that a(3) have "obj2 = obj1" by simp
    with o1 o3 show ?thesis by simp
  qed
  have expl: "fib_explanation obj3 = []" if "\<not> sublist ''EXPLANATION:'' block"
  proof -
    from q(2) that have "\<not> sublist ''EXPLANATION:'' block1" by (rule not_sublist_mono)
    with e(3) have "obj3 = obj2" by simp
    with o1 o2 show ?thesis by simp
  qed
  from res o1 o2 o3 ans expl show ?thesis by simp
qed

lemma mcq_loop_result:
  "\<exists>rs. mcq_loop sq blocks idx acc = Inr (acc @ rs) \<and> length rs = length blocks \<and>
     (\<forall>j<length blocks. \<exists>obj. mcq_fields (blocks ! j) = Inr obj \<and>
        rs ! j = (if idx + j < length sq
                  then obj\<lparr>mcq_difficulty := fst (sq ! (idx + j)),
                           mcq_blooms_level := snd (sq ! (idx + j))\<rparr>
                  else obj))"
proof (induction blocks arbitrary: idx acc)
  case Nil
  show ?case by simp
next
  case (Cons block blocks)
  obtain obj where obj: "mcq_fields block = Inr obj" using mcq_fields_cases by blast
  define r where "r = (if idx < length sq
      then obj\<lparr>mcq_difficulty := fst (sq ! idx), mcq_blooms_level := snd (sq ! idx)\<rparr> else obj)"
  define idx' where "idx' = (if idx < length sq then idx + 1 else idx)"
  have step: "mcq_loop sq (block # blocks) idx acc = mcq_loop sq blocks idx' (acc @ [r])"
    using obj by (simp add: r_def idx'_def)
  from Cons.IH[of idx' "acc @ [r]"] obtain rs where rs:
    "mcq_loop sq blocks idx' (acc @ [r]) = Inr ((acc @ [r]) @ rs)" "length rs = length blocks"
    "\<forall>j<length blocks. \<exists>obj. mcq_fields (blocks ! j) = Inr obj \<and>
        rs ! j = (if idx' + j < length sq
                  then obj\<lparr>mcq_difficulty := fst (sq ! (idx' + j)),
                           mcq_blooms_level := snd (sq ! (idx' + j))\<rparr>
                  else obj)"
    by blast
  have "\<exists>o'. mcq_fields ((block # blocks) ! j) = Inr o' \<and>
        (r # rs) ! j = (if idx + j < length sq
                  then o'\<lparr>mcq_difficulty := fst (sq ! (idx + j)),
                           mcq_blooms_level := snd (sq ! (idx + j))\<rparr>
                  else o')" if "j < length (block # blocks)" for j
  proof (cases j)
    case 0
    with obj show ?thesis by (simp add: r_def)
  next
    case (Suc k)
    with that have "k < length blocks" by simp
    with rs(3) obtain o' where o': "mcq_fields (blocks ! k) = Inr o'"
      "rs ! k = (if idx' + k < length sq
                  then o'\<lparr>mcq_difficulty := fst (sq ! (idx' + k)),
                           mcq_blooms_level := snd (sq ! (idx' + k))\<rparr>
                  else o')" by blast
    show ?thesis
    proof (cases "idx < length sq")
      case True
      with o' Suc show ?thesis by (simp add: idx'_def)
    next
      case False
      with o' Suc show ?thesis by (simp add: idx'_def)
    qed
  qed
  with step rs(1,2) show ?case
    by (intro exI[of _ "r # rs"]) simp
qed

section \<open>The parsing loops and the claims about the parsers\<close>


lemma fib_loop_result:
  "\<exists>rs. fib_loop sq blocks idx acc = Inr (acc @ rs) \<and> length rs = length blocks \<and>
     (\<forall>j<length blocks. \<exists>obj. fib_fields (blocks ! j) = Inr obj \<and>
        rs ! j = (if idx + j < length sq
                  then obj\<lparr>fib_difficulty := fst (sq ! (idx + j)),
                           fib_blooms_level := snd (sq ! (idx + j))\<rparr>
                  else obj))"
proof (induction blocks arbitrary: idx acc)
  case Nil
  show ?case by simp
next
  case (Cons block blocks)
  obtain obj where obj: "fib_fields block = Inr obj" using fib_fields_cases by blast
  define r where "r = (if idx < length sq
      then obj\<lparr>fib_difficulty := fst (sq ! idx), fib_blooms_level := snd (sq ! idx)\<rparr> else obj)"
  define idx' where "idx' = (if idx < length sq then idx + 1 else idx)"
  have step: "fib_loop sq (block # blocks) idx acc = fib_loop sq blocks idx' (acc @ [r])"
    using obj by (simp add: r_def idx'_def)
  from Cons.IH[of idx' "acc @ [r]"] obtain rs where rs:
    "fib_loop sq blocks idx' (acc @ [r]) = Inr ((acc @ [r]) @ rs)" "length rs = length blocks"
    "\<forall>j<length blocks. \<exists>obj. fib_fields (blocks ! j) = Inr obj \<and>
        rs ! j = (if idx' + j < length sq
                  then obj\<lparr>fib_difficulty := fst (sq ! (idx' + j)),
                           fib_blooms_level := snd (sq ! (idx' + j))\<rparr>
                  else obj)"
    by blast
  have "\<exists>o'. fib_fields ((block # blocks) ! j) = Inr o' \<and>
        (r # rs) ! j = (if idx + j < length sq
                  then o'\<lparr>fib_difficulty := fst (sq ! (idx + j)),
                           fib_blooms_level := snd (sq ! (idx + j))\<rparr>
                  else o')" if "j < length (block # blocks)" for j
  proof (cases j)
    case 0
    with obj show ?thesis by (simp add: r_def)
  next
    case (Suc k)
    with that have "k < length blocks" by simp
    with rs(3) obtain o' where o': "fib_fields (blocks ! k) = Inr o'"
      "rs ! k = (if idx' + k < length sq
                  then o'\<lparr>fib_difficulty := fst (sq ! (idx' + k)),
                           fib_blooms_level := snd (sq ! (idx' + k))\<rparr>
                  else o')" by blast
    show ?thesis
    proof (cases "idx < length sq")
      case True
      with o' Suc show ?thesis by (simp add: idx'_def)
    next
      case False
      with o' Suc show ?thesis by (simp add: idx'_def)
    qed
  qed
  with step rs(1,2) show ?case
    by (intro exI[of _ "r # rs"]) simp
qed




text \<open>
  C5. \<open>parse_mcq\<close> and \<open>parse_fill_in_blank\<close> return a list of records for every
  text, and never an exception. In the record of a fragment that does not contain
  \<open>ANSWER:\<close> the answer is the empty default (the empty string, for fill-in-blank the
  empty list); without \<open>EXPLANATION:\<close> the explanation is the empty string; without
  any of the three distractor markers the list of distractors is empty.
\<close>

theorem parser_never_raises:
  "(\<exists>rs. parse_mcq res bd = Inr rs \<and> length rs = length (fragments ''QUESTION:'' res) \<and>
      (\<forall>i<length rs.
         (\<not> sublist ''ANSWER:'' (fragments ''QUESTION:'' res ! i) \<longrightarrow> mcq_answer (rs ! i) = []) \<and>
         (\<not> sublist ''EXPLANATION:'' (fragments ''QUESTION:'' res ! i) \<longrightarrow>
            mcq_explanation (rs ! i) = []) \<and>
         ((\<forall>k\<in>set distractor_keys. \<not> sublist k (fragments ''QUESTION:'' res ! i)) \<longrightarrow>
            mcq_distractors (rs ! i) = []))) \<and>
   (\<exists>rs. parse_fill_in_blank res bd = Inr rs \<and>
      length rs = length (fragments ''QUESTION:'' res) \<and>
      (\<forall>i<length rs.
         (\<not> sublist ''ANSWER:'' (fragments ''QUESTION:'' res ! i) \<longrightarrow> fib_answer (rs ! i) = []) \<and>
         (\<not> sublist ''EXPLANATION:'' (fragments ''QUESTION:'' res ! i) \<longrightarrow>
            fib_explanation (rs ! i) = [])))"
proof (intro conjI)
  let ?sq = "create_question_sequence bd"
  let ?fs = "fragments ''QUESTION:'' res"
  obtain rs where rs: "mcq_loop ?sq ?fs 0 [] = Inr ([] @ rs)" "length rs = length ?fs"
      "\<forall>j<length ?fs.
         \<exists>obj. mcq_fields (?fs ! j) = Inr obj \<and>
           rs ! j = (if 0 + j < length ?sq
                     then obj\<lparr>mcq_difficulty := fst (?sq ! (0 + j)),
                              mcq_blooms_level := snd (?sq ! (0 + j))\<rparr>
                     else obj)"
    using mcq_loop_result[of ?sq ?fs 0 "[]"] by blast
  have "(\<not> sublist ''ANSWER:'' (?fs ! i) \<longrightarrow> mcq_answer (rs ! i) = []) \<and>
        (\<not> sublist ''EXPLANATION:'' (?fs ! i) \<longrightarrow> mcq_explanation (rs ! i) = []) \<and>
        ((\<forall>k\<in>set distractor_keys. \<not> sublist k (?fs ! i)) \<longrightarrow> mcq_distractors (rs ! i) = [])"
    if "i < length rs" for i
  proof -
    from that rs(2,3) obtain obj where obj: "mcq_fields (?fs ! i) = Inr obj"
      "rs ! i = (if 0 + i < length ?sq
                 then obj\<lparr>mcq_difficulty := fst (?sq ! (0 + i)),
                          mcq_blooms_level := snd (?sq ! (0 + i))\<rparr>
                 else obj)" by auto
    from obj(2) have same: "mcq_answer (rs ! i) = mcq_answer obj"
        "mcq_explanation (rs ! i) = mcq_explanation obj"
        "mcq_distractors (rs ! i) = mcq_distractors obj"
      by simp_all
    from obj(1) mcq_fields_cases[of "?fs ! i"] show ?thesis unfolding same by auto
  qed
  with rs(1,2) show "\<exists>rs. parse_mcq res bd = Inr rs \<and> length rs = length ?fs \<and>
      (\<forall>i<length rs.
         (\<not> sublist ''ANSWER:'' (?fs ! i) \<longrightarrow> mcq_answer (rs ! i) = []) \<and>
         (\<not> sublist ''EXPLANATION:'' (?fs ! i) \<longrightarrow> mcq_explanation (rs ! i) = []) \<and>
         ((\<forall>k\<in>set distractor_keys. \<not> sublist k (?fs ! i)) \<longrightarrow>
            mcq_distractors (rs ! i) = []))"
    by (simp add: parse_mcq_def)
next
  let ?sq = "create_question_sequence bd"
  let ?fs = "fragments ''QUESTION:'' res"
  obtain rs where rs: "fib_loop ?sq ?fs 0 [] = Inr ([] @ rs)" "length rs = length ?fs"
      "\<forall>j<length ?fs.
         \<exists>obj. fib_fields (?fs ! j) = Inr obj \<and>
           rs ! j = (if 0 + j < length ?sq
                     then obj\<lparr>fib_difficulty := fst (?sq ! (0 + j)),
                              fib_blooms_level := snd (?sq ! (0 + j))\<rparr>
                     else obj)"
    using fib_loop_result[of ?sq ?fs 0 "[]"] by blast
  have "(\<not> sublist ''ANSWER:'' (?fs ! i) \<longrightarrow> fib_answer (rs ! i) = []) \<and>
        (\<not> sublist ''EXPLANATION:'' (?fs ! i) \<longrightarrow> fib_explanation (rs ! i) = [])"
    if "i < length rs" for i
  proof -
    from that rs(2,3) obtain obj where obj: "fib_fields (?fs ! i) = Inr obj"
      "rs ! i = (if 0 + i < length ?sq
                 then obj\<lparr>fib_difficulty := fst (?sq ! (0 + i)),
                          fib_blooms_level := snd (?sq ! (0 + i))\<rparr>
                 else obj)" by auto
    from obj(2) have same: "fib_answer (rs ! i) = fib_answer obj"
        "fib_explanation (rs ! i) = fib_explanation obj"
      by simp_all
    from obj(1) fib_fields_cases[of "?fs ! i"] show ?thesis unfolding same by auto
  qed
  with rs(1,2) show "\<exists>rs. parse_fill_in_blank res bd = Inr rs \<and> length rs = length ?fs \<and>
      (\<forall>i<length rs.
         (\<not> sublist ''ANSWER:'' (?fs ! i) \<longrightarrow> fib_answer (rs ! i) = []) \<and>
         (\<not> sublist ''EXPLANATION:'' (?fs ! i) \<longrightarrow> fib_explanation (rs ! i) = []))"
    by (simp add: parse_fill_in_blank_def)
qed

theorem parser_never_raises_witness:
  "\<exists>rs. parse_mcq ''QUESTION:q ANSWER:a''
          [(''d_b'', \<lparr>difficulty = ''d'', blooms_level = ''b'', count = 1\<rparr>)] = Inr rs \<and>
     length rs = 1 \<and> mcq_explanation (rs ! 0) = [] \<and> mcq_distractors (rs ! 0) = []"
proof -
  let ?bd = "[(''d_b'', \<lparr>difficulty = ''d'', blooms_level = ''b'', count = 1\<rparr>)]"
  let ?res = "''QUESTION:q ANSWER:a''"
  have f: "fragments ''QUESTION:'' ?res = [''q ANSWER:a'']"
    by code_simp
  have e: "\<not> sublist ''EXPLANATION:'' ''q ANSWER:a''"
    by code_simp
  have d: "\<forall>k\<in>set distractor_keys. \<not> sublist k ''q ANSWER:a''"
    by code_simp
  from parser_never_raises[of ?res ?bd]
  obtain rs where rs: "parse_mcq ?res ?bd = Inr rs"
      "length rs = length (fragments ''QUESTION:'' ?res)"
      "\<forall>i<length rs.
         (\<not> sublist ''ANSWER:'' (fragments ''QUESTION:'' ?res ! i) \<longrightarrow> mcq_answer (rs ! i) = []) \<and>
         (\<not> sublist ''EXPLANATION:'' (fragments ''QUESTION:'' ?res ! i) \<longrightarrow>
            mcq_explanation (rs ! i) = []) \<and>
         ((\<forall>k\<in>set distractor_keys. \<not> sublist k (fragments ''QUESTION:'' ?res ! i)) \<longrightarrow>
            mcq_distractors (rs ! i) = [])"
    by blast
  from rs(2) have l: "length rs = 1" unfolding f by simp
  from l have "0 < length rs" by simp
  with rs(3) have "(\<not> sublist ''EXPLANATION:'' (fragments ''QUESTION:'' ?res ! 0) \<longrightarrow>
            mcq_explanation (rs ! 0) = []) \<and>
         ((\<forall>k\<in>set distractor_keys. \<not> sublist k (fragments ''QUESTION:'' ?res ! 0)) \<longrightarrow>
            mcq_distractors (rs ! 0) = [])"
    by blast
  with e d have "mcq_explanation (rs ! 0) = [] \<and> mcq_distractors (rs ! 0) = []"
    unfolding f by simp
  with rs(1) l show ?thesis by blast
qed

section \<open>The claim about the sequence of labels\<close>

lemma append_times_replicate: "append_times n x sequence = sequence @ replicate n x"
  by (induction n arbitrary: sequence) (simp_all add: replicate_app_Cons_same)

lemma sequence_foldl:
  "foldl (\<lambda>sequence (combo_key, specs).
       append_times (nat (count specs)) (difficulty specs, blooms_level specs) sequence) acc bd =
   acc @ concat (map (\<lambda>(combo_key, specs).
       replicate (nat (count specs)) (difficulty specs, blooms_level specs)) bd)"
  by (induction bd arbitrary: acc) (auto simp: append_times_replicate)

lemma length_sequence:
  "int (length (concat (map (\<lambda>(combo_key, specs).
       replicate (nat (count specs)) (difficulty specs, blooms_level specs)) bd))) =
   sum_list (map (\<lambda>kv. max 0 (count (snd kv))) bd)"
  by (induction bd) auto

text \<open>
  C3. The sequence built from a breakdown is the concatenation, in the order of the
  entries, of \<open>count\<close> copies of each entry's pair \<open>(difficulty, blooms_level)\<close>; when
  no count is negative its length is the sum of the counts; and the breakdown
  \<open>{(basic, remember): 2, (advanced, analyze): 3}\<close> gives the five pairs of the example.
\<close>

theorem create_question_sequence_repeats:
  "create_question_sequence bd =
     concat (map (\<lambda>(combo_key, specs).
       replicate (nat (count specs)) (difficulty specs, blooms_level specs)) bd) \<and>
   ((\<forall>kv\<in>set bd. 0 \<le> count (snd kv)) \<longrightarrow>
      int (length (create_question_sequence bd)) = total_count bd) \<and>
   create_question_sequence
     [(''basic_remember'', \<lparr>difficulty = ''basic'', blooms_level = ''remember'', count = 2\<rparr>),
      (''advanced_analyze'', \<lparr>difficulty = ''advanced'', blooms_level = ''analyze'', count = 3\<rparr>)] =
     [(''basic'', ''remember''), (''basic'', ''remember''),
      (''advanced'', ''analyze''), (''advanced'', ''analyze''), (''advanced'', ''analyze'')]"
proof (intro conjI impI)
  show eq: "create_question_sequence bd =
     concat (map (\<lambda>(combo_key, specs).
       replicate (nat (count specs)) (difficulty specs, blooms_level specs)) bd)" for bd :: "('a \<times> 'b specs_scheme) list"
    by (simp add: create_question_sequence_def sequence_foldl)
  show "int (length (create_question_sequence bd)) = total_count bd"
    if "\<forall>kv\<in>set bd. 0 \<le> count (snd kv)"
  proof -
    from that have "sum_list (map (\<lambda>kv. max 0 (count (snd kv))) bd) =
        sum_list (map (\<lambda>kv. count (snd kv)) bd)"
      by (intro arg_cong[where f = sum_list] map_cong) auto
    then show ?thesis by (simp only: eq length_sequence total_count_def)
  qed
  show "create_question_sequence
     [(''basic_remember'', \<lparr>difficulty = ''basic'', blooms_level = ''remember'', count = 2\<rparr>),
      (''advanced_analyze'', \<lparr>difficulty = ''advanced'', blooms_level = ''analyze'', count = 3\<rparr>)] =
     [(''basic'', ''remember''), (''basic'', ''remember''),
      (''advanced'', ''analyze''), (''advanced'', ''analyze''), (''advanced'', ''analyze'')]"
    by (simp add: create_question_sequence_def sequence_foldl numeral_3_eq_3 numeral_2_eq_2)
qed

theorem create_question_sequence_repeats_witness:
  "create_question_sequence
     [(''k'', \<lparr>difficulty = ''d'', blooms_level = ''b'', count = 2\<rparr>)] =
     [(''d'', ''b''), (''d'', ''b'')] \<and>
   int (length (create_question_sequence
     [(''k'', \<lparr>difficulty = ''d'', blooms_level = ''b'', count = 2\<rparr>)])) = 2"
  using create_question_sequence_repeats
    [of "[(''k'', \<lparr>difficulty = ''d'', blooms_level = ''b'', count = 2\<rparr>)]"]
  by (simp add: total_count_def numeral_2_eq_2)

section \<open>The claim about the distributions of a type\<close>

lemma sum_dict_set:
  "sum_list (map snd (dict_set d k (v::rat))) =
     sum_list (map snd d) + v - (case dict_get d k of None \<Rightarrow> 0 | Some w \<Rightarrow> w)"
  by (induction d) auto

lemma sum_accumulate: "sum_list (map snd (accumulate d k x)) = sum_list (map snd d) + x"
  by (simp add: accumulate_def sum_dict_set split: option.splits)

lemma dists_loop_sums:
  "n \<noteq> 0 \<Longrightarrow>
   \<exists>dd bd. dists_loop configs n dd0 bd0 = Inr (dd, bd) \<and>
     sum_list (map snd dd) = sum_list (map snd dd0) + of_int (total_for_type configs) / of_int n \<and>
     sum_list (map snd bd) = sum_list (map snd bd0) + of_int (total_for_type configs) / of_int n"
proof (induction configs arbitrary: dd0 bd0)
  case Nil
  show ?case by (simp add: total_for_type_def)
next
  case (Cons config configs)
  let ?x = "of_int (count config) / of_int n :: rat"
  from Cons.prems have d: "py_truediv (count config) n = Inr ?x" by (simp add: py_truediv_def)
  from Cons.IH[OF Cons.prems, of "accumulate dd0 (difficulty config) ?x"
      "accumulate bd0 (blooms_level config) ?x"]
  obtain dd bd where r:
    "dists_loop configs n (accumulate dd0 (difficulty config) ?x)
       (accumulate bd0 (blooms_level config) ?x) = Inr (dd, bd)"
    "sum_list (map snd dd) = sum_list (map snd (accumulate dd0 (difficulty config) ?x)) +
       of_int (total_for_type configs) / of_int n"
    "sum_list (map snd bd) = sum_list (map snd (accumulate bd0 (blooms_level config) ?x)) +
       of_int (total_for_type configs) / of_int n"
    by blast
  have "dists_loop (config # configs) n dd0 bd0 = Inr (dd, bd)" using d r(1) by simp
  moreover have "sum_list (map snd dd) =
      sum_list (map snd dd0) + of_int (total_for_type (config # configs)) / of_int n"
    using r(2) by (simp add: sum_accumulate total_for_type_def add_divide_distrib)
  moreover have "sum_list (map snd bd) =
      sum_list (map snd bd0) + of_int (total_for_type (config # configs)) / of_int n"
    using r(3) by (simp add: sum_accumulate total_for_type_def add_divide_distrib)
  ultimately show ?case by blast
qed

text \<open>
  C10. For the cells of a type whose counts have a positive sum, the orchestrator's loop
  returns the two distributions of the type without raising, and the proportions of the
  difficulty distribution and those of the Bloom's distribution each sum to exactly 1
  (the quotients \<open>count / total_for_type\<close> being exact).
\<close>

theorem local_distributions_sum_to_one:
  "0 < total_for_type configs \<Longrightarrow>
   \<exists>difficulty_dist_for_type blooms_dist_for_type.
     dists_for_type configs = Inr (difficulty_dist_for_type, blooms_dist_for_type) \<and>
     sum_list (map snd difficulty_dist_for_type) = 1 \<and>
     sum_list (map snd blooms_dist_for_type) = 1"
proof -
  assume pos: "0 < total_for_type configs"
  then have "total_for_type configs \<noteq> 0" by simp
  from dists_loop_sums[OF this, of configs "[]" "[]"] pos show ?thesis
    by (simp add: dists_for_type_def)
qed

theorem local_distributions_sum_to_one_witness:
  "\<exists>dd bd. dists_for_type
       [\<lparr>difficulty = ''a'', blooms_level = ''r'', count = 1, question_type = ''mcq''\<rparr>,
        \<lparr>difficulty = ''a'', blooms_level = ''n'', count = 2, question_type = ''mcq''\<rparr>] =
       Inr (dd, bd) \<and>
     sum_list (map snd dd) = 1 \<and> sum_list (map snd bd) = 1"
proof -
  have "0 < total_for_type
       [\<lparr>difficulty = ''a'', blooms_level = ''r'', count = 1, question_type = ''mcq''\<rparr>,
        \<lparr>difficulty = ''a'', blooms_level = ''n'', count = 2, question_type = ''mcq''\<rparr>]"
    by (simp add: total_for_type_def)
  from local_distributions_sum_to_one[OF this] show ?thesis .
qed

section \<open>The claims about the allocation\<close>



lemma foldl_empty:
  assumes "\<And>x. x \<in> set xs \<Longrightarrow> f [] x = []"
  shows "foldl f [] xs = []"
  using assms by (induction xs) auto











text \<open>
  Whenever no cell is kept and the total is not 0, the adjustment raises \<open>ValueError\<close>.
\<close>

lemma no_cell_raises:
  "breakdown_loop num_questions difficulty_dist blooms_dist = [] \<Longrightarrow> num_questions \<noteq> 0 \<Longrightarrow>
   compute_question_breakdown num_questions difficulty_dist blooms_dist = Inl ValueError"
  by (simp add: compute_question_breakdown_def adjust_def total_count_def)

text \<open>
  C2. The breakdown of \<open>generate_mcqs\<close> for one question, with the difficulties
  \<open>{basic: 0.5, advanced: 0.5}\<close> and the Bloom's levels \<open>{remember: 0.5, analyze: 0.5}\<close>:
  each of the four counts is \<open>round(0.25) = 0\<close>, the breakdown is empty, the remainder is 1,
  and the call raises \<open>ValueError\<close> where the claim has it return the empty allocation.
\<close>

theorem empty_breakdown_raises:
  "compute_question_breakdown 1 [(''basic'', 1 / 2), (''advanced'', 1 / 2)]
       [(''remember'', 1 / 2), (''analyze'', 1 / 2)] = Inl ValueError"
  by code_simp

section \<open>The answer lines and the orchestrator\<close>

lemma digit_not_period: "isdigit c \<Longrightarrow> c \<noteq> CHR ''.''"
  by (auto simp: isdigit_def)

lemma numbered_line:
  assumes "py_strip l = c # ''. '' @ rest" and "isdigit c"
  shows "answer_lines (l # ls) answer = answer_lines ls (answer @ [py_strip rest])"
proof -
  have "sublist ''. '' (c # ''. '' @ rest)"
    by (simp add: sublist_Cons_right)
  moreover have "py_split_once ''. '' (c # ''. '' @ rest) = [[c], rest]"
    using digit_not_period[OF assms(2)] by (simp add: py_split_once_def)
  ultimately show ?thesis using assms by (simp add: Let_def subscript_def)
qed

lemma unnumbered_line:
  assumes "py_strip l = c # rest" and "\<not> isdigit c"
  shows "answer_lines (l # ls) answer = answer_lines ls (answer @ [c # rest])"
  using assms by (simp add: Let_def)

lemma blank_line:
  assumes "py_strip l = []"
  shows "answer_lines (l # ls) answer = answer_lines ls answer"
  using assms by (simp add: Let_def)

text \<open>
  C6. The answer \<open>2 ml. ok\<close> is one line that starts with a digit but bears no numbered
  prefix (the digit is not followed by a period). The claim, and the comment in the source
  ("starts with a number followed by a period"), have it added whole; the test
  \<open>line[0].isdigit() and '. ' in line\<close> accepts it, and the text before the first
  \<open>'. '\<close> is cut off.
\<close>

theorem digit_line_is_cut:
  "fib_answer_of ''2 ml. ok'' = Inr [''ok'']"
  by code_simp

lemma digit_line_in_record:
  "map_sum id fib_answer (fib_fields ''q ANSWER:2 ml. ok EXPLANATION:e'') = Inr [''ok'']"
  by code_simp

lemma process_results_raises:
  "Returned (q, f, d, Some msg) \<in> set results \<Longrightarrow> msg \<noteq> [] \<Longrightarrow>
   \<exists>e. process_results results files_generated all_question_data = Inl e"
proof (induction results arbitrary: files_generated all_question_data)
  case Nil
  then show ?case by simp
next
  case (Cons r results)
  show ?case
  proof (cases r)
    case (Returned t)
    obtain q' f' d' e' where t: "t = (q', f', d', e')" by (cases t) auto
    show ?thesis
    proof (cases "truthy e'")
      case True
      with Returned t show ?thesis by simp
    next
      case False
      with Cons.prems Returned t have "Returned (q, f, d, Some msg) \<in> set results" by auto
      from Cons.IH[OF this Cons.prems(2)] Returned t False show ?thesis by simp
    qed
  next
    case (ExceptionObject x)
    then show ?thesis by simp
  next
    case BaseExceptionObject
    then show ?thesis by simp
  qed
qed

lemma run_jobs_raises:
  assumes "(q, Raised msg) \<in> set jobs" and "msg \<noteq> []"
  shows "\<exists>e. run_jobs jobs = Inl e"
proof -
  from assms(1) have "Returned (generate_single_question_type_sync q (Raised msg)) \<in>
      set (map (\<lambda>(q_type, outcome). Returned (generate_single_question_type_sync q_type outcome)) jobs)"
    by force
  then have "Returned (q, None, None, Some msg) \<in>
      set (map (\<lambda>(q_type, outcome). Returned (generate_single_question_type_sync q_type outcome)) jobs)"
    by simp
  from process_results_raises[OF this assms(2)] show ?thesis
    unfolding run_jobs_def .
qed

text \<open>
  C7. Two jobs: the one for \<open>mcq\<close> completes, the one for \<open>tf\<close> raises an exception whose
  \<open>str\<close> is empty (such as \<open>Exception()\<close> or \<open>TimeoutError()\<close>). The handler returns
  \<open>(question_type, None, None, "")\<close>; \<open>if error:\<close> is false for the empty string, so
  nothing is raised: the orchestrator returns a mapping that holds the data of \<open>mcq\<close>
  and \<open>None\<close> for \<open>tf\<close>.
\<close>

theorem empty_message_failure_is_not_surfaced:
  "run_jobs [(''mcq'', Completed ''mcqs.json'' question_data), (''tf'', Raised [])] =
     Inr ([Some ''mcqs.json'', None], [(''mcq'', Some question_data), (''tf'', None)])"
  by (simp add: run_jobs_def)

section \<open>The claim about regrouping by type\<close>






















end
